theory Spec2Isabelle
  imports Complex_Main "HOL-Library.Word"
begin

section \<open>The OWON VDS6104 driver: value quantization and waveform decoding\<close>

text \<open>
  The development embeds the numeric core of the driver: the functions of
  \<^verbatim>\<open>scale.py\<close> (\<^verbatim>\<open>calc_valid_inputs\<close>, \<^verbatim>\<open>get_closest_value\<close>,
  \<^verbatim>\<open>validate_input\<close>, \<^verbatim>\<open>check_index\<close>, \<^verbatim>\<open>get_val_ceil\<close>), the sample loop of
  \<^verbatim>\<open>OwonVDS6104.capture\<close> and the token assembly of the \<^verbatim>\<open>timebase\<close> setter.

  Python floats are modelled by the real numbers: every finite float is a rational, the
  comparisons of the source are the comparisons of the reals, and the rounding of the float
  operations (\<^verbatim>\<open>float('2e-3')\<close>, \<^verbatim>\<open>value - input_value\<close>, the division by 6400) is
  idealised to exact arithmetic. Infinities, NaN and the negative zero have no counterpart.
  An exception raised by the source is a value \<open>Inl err\<close>; a loop that need not end is a
  function into \<open>option\<close>, where \<open>None\<close> stands for "does not return".
\<close>

subsection \<open>Exceptions\<close>

datatype error = ValueError | IndexError

subsection \<open>The format \<^verbatim>\<open>'{0:e}'.format(x)\<close>\<close>

text \<open>
  Python renders a float with the presentation type \<^verbatim>\<open>e\<close> as a sign, one leading digit, a
  point, six further digits and a decimal exponent of at least two digits, correctly rounded
  (ties to even) to these seven significant digits: \<^verbatim>\<open>2.000000e-03\<close>, \<^verbatim>\<open>-3.000000e+00\<close>,
  \<^verbatim>\<open>0.000000e+00\<close>, and \<^verbatim>\<open>1.000000e+01\<close> for \<^verbatim>\<open>9.9999999\<close>. The source reads two things
  off this string: its first character and the integer after the letter \<^verbatim>\<open>e\<close>. The model
  keeps the sign, the leading digit and the exponent.
\<close>

function exp10_ge :: "real \<Rightarrow> int" where
  "exp10_ge x = (if 10 \<le> x then exp10_ge (x / 10) + 1 else 0)"
  by pat_completeness auto
termination
proof (relation "measure (\<lambda>x. nat \<lceil>x\<rceil>)")
  show "wf (measure (\<lambda>x. nat \<lceil>x\<rceil>))" by simp
next
  fix x :: real
  assume "10 \<le> x"
  then have "\<lceil>x / 10\<rceil> < \<lceil>x\<rceil>" by linarith
  moreover from \<open>10 \<le> x\<close> have "0 < \<lceil>x\<rceil>" by linarith
  ultimately show "(x / 10, x) \<in> measure (\<lambda>x. nat \<lceil>x\<rceil>)" by simp
qed

function exp10_lt :: "real \<Rightarrow> int" where
  "exp10_lt x = (if 0 < x \<and> x < 1 then exp10_lt (x * 10) - 1 else 0)"
  by pat_completeness auto
termination
proof (relation "measure (\<lambda>x. nat \<lceil>1 / x\<rceil>)")
  show "wf (measure (\<lambda>x. nat \<lceil>1 / x\<rceil>))" by simp
next
  fix x :: real
  assume a: "0 < x \<and> x < 1"
  define y where "y = 1 / x"
  from a have y: "1 < y" by (simp add: y_def)
  then have c: "2 \<le> \<lceil>y\<rceil>" by linarith
  have h1: "y \<le> of_int \<lceil>y\<rceil>" by (rule le_of_int_ceiling)
  from c have h2: "(2::real) \<le> of_int \<lceil>y\<rceil>" by (metis of_int_le_iff of_int_numeral)
  from h1 h2 have "y / 10 \<le> of_int \<lceil>y\<rceil> - 1" by linarith
  then have "y / 10 \<le> of_int (\<lceil>y\<rceil> - 1)" by simp
  then have k: "\<lceil>y / 10\<rceil> \<le> \<lceil>y\<rceil> - 1" by (rule ceiling_le)
  have e: "1 / (x * 10) = y / 10" unfolding y_def by (simp only: divide_divide_eq_left)
  have "\<lceil>1 / (x * 10)\<rceil> < \<lceil>y\<rceil>" unfolding e using k by linarith
  with c have "nat \<lceil>1 / (x * 10)\<rceil> < nat \<lceil>1 / x\<rceil>" unfolding y_def by linarith
  then show "(x * 10, x) \<in> measure (\<lambda>x. nat \<lceil>1 / x\<rceil>)"
    by (simp only: in_measure)
qed

declare exp10_ge.simps [simp del] exp10_lt.simps [simp del]

text \<open>The decimal exponent of a positive number: \<open>10 powi e \<le> x < 10 powi (e + 1)\<close>.\<close>

definition sci_exponent :: "real \<Rightarrow> int" where
  "sci_exponent x = (if 1 \<le> x then exp10_ge x else exp10_lt x)"

definition round_half_even :: "real \<Rightarrow> int" where
  "round_half_even x =
     (let f = \<lfloor>x\<rfloor>; r = x - of_int f
      in if r < 1 / 2 then f else if 1 / 2 < r then f + 1 else if even f then f else f + 1)"

text \<open>
  \<open>format_e x = (neg, d, e)\<close>: the string starts with \<^verbatim>\<open>-\<close> iff \<open>neg\<close>, its leading digit
  is \<open>d\<close> and its exponent field reads \<open>e\<close>. The seven digits are the integer
  \<open>m = round_half_even (\<bar>x\<bar> * 10 powi (6 - e))\<close>; when rounding carries to \<open>10^7\<close> the
  string is \<^verbatim>\<open>1.000000\<close> with the next exponent.
\<close>

definition format_e :: "real \<Rightarrow> bool \<times> int \<times> int" where
  "format_e x =
     (if x = 0 then (False, 0, 0)
      else let a = \<bar>x\<bar>; e = sci_exponent a; m = round_half_even (a * 10 powi (6 - e))
           in if m = 10000000 then (x < 0, 1, e + 1) else (x < 0, m div 1000000, e))"

text \<open>
  \<^verbatim>\<open>int('{0:e}'.format(MIN_VAL)[0])\<close>: the first character is \<^verbatim>\<open>-\<close> for a negative number,
  and \<^verbatim>\<open>int('-')\<close> raises \<^verbatim>\<open>ValueError\<close>; otherwise it is the leading digit.
\<close>

definition leading_char_int :: "real \<Rightarrow> error + int" where
  "leading_char_int x = (case format_e x of (neg, d, e) \<Rightarrow> if neg then Inl ValueError else Inr d)"

text \<open>\<^verbatim>\<open>int('{0:e}'.format(MIN_VAL).split('e')[1])\<close>: the exponent field.\<close>

definition exponent_int :: "real \<Rightarrow> int" where
  "exponent_int x = (case format_e x of (neg, d, e) \<Rightarrow> e)"

text \<open>
  For comparison with the format, the leading significant digit in the plain sense: the
  first digit of the decimal expansion of a positive number, with no rounding.
\<close>

definition leading_significant_digit :: "real \<Rightarrow> int" where
  "leading_significant_digit x = \<lfloor>x / 10 powi sci_exponent x\<rfloor>"

subsection \<open>\<^verbatim>\<open>calc_valid_inputs\<close>\<close>

text \<open>\<^verbatim>\<open>seq.index(y)\<close>: the position of the first element equal to \<open>y\<close>, or \<^verbatim>\<open>ValueError\<close>.\<close>

fun index_py :: "'a list \<Rightarrow> 'a \<Rightarrow> error + nat" where
  "index_py [] y = Inl ValueError"
| "index_py (x # xs) y =
     (if x = y then Inr 0
      else case index_py xs y of Inl err \<Rightarrow> Inl err | Inr i \<Rightarrow> Inr (Suc i))"

text \<open>
  \<^verbatim>\<open>float('{0}e{1}'.format(MANTISSA[idx_mantissa], exponent))\<close>: the number denoted by the
  decimal literal, built from the mantissa and the exponent and from nothing else.
\<close>

definition float_of_literal :: "int \<Rightarrow> int \<Rightarrow> real" where
  "float_of_literal m e = of_int m * 10 powi e"

text \<open>
  The \<^verbatim>\<open>while value <= MAX_VAL\<close> loop. It runs forever for a mantissa tuple such as
  \<^verbatim>\<open>(0,)\<close>, so it is a partial function. The index is in range at every read: the loop
  is entered only after \<^verbatim>\<open>MANTISSA.index\<close> has found an element, and
  \<open>idx_mantissa\<close> is reduced modulo the length.
\<close>

partial_function (option) calc_loop ::
  "real \<Rightarrow> int list \<Rightarrow> nat \<Rightarrow> int \<Rightarrow> real \<Rightarrow> real list \<Rightarrow> real list option" where
  "calc_loop MAX_VAL MANTISSA idx_mantissa exponent val values_valid =
     (if val \<le> MAX_VAL then
        calc_loop MAX_VAL MANTISSA
          ((idx_mantissa + 1) mod length MANTISSA)
          (if (idx_mantissa + 1) mod length MANTISSA = 0 then exponent + 1 else exponent)
          (float_of_literal
             (MANTISSA ! ((idx_mantissa + 1) mod length MANTISSA))
             (if (idx_mantissa + 1) mod length MANTISSA = 0 then exponent + 1 else exponent))
          (values_valid @ [val])
      else Some values_valid)"

definition calc_valid_inputs :: "real \<Rightarrow> real \<Rightarrow> int list \<Rightarrow> (error + real list) option" where
  "calc_valid_inputs MIN_VAL MAX_VAL MANTISSA =
     (case leading_char_int MIN_VAL of
        Inl err \<Rightarrow> Some (Inl err)
      | Inr d \<Rightarrow>
          (case index_py MANTISSA d of
             Inl err \<Rightarrow> Some (Inl err)
           | Inr idx_mantissa \<Rightarrow>
               map_option Inr
                 (calc_loop MAX_VAL MANTISSA idx_mantissa (exponent_int MIN_VAL) MIN_VAL [])))"

subsection \<open>\<^verbatim>\<open>get_closest_value\<close>\<close>

text \<open>
  The \<^verbatim>\<open>for value in possible_values\<close> loop with its three variables. \<open>min_delta\<close> is
  unbound in the source until the first iteration assigns it; it is never read before, so
  its initial value in the model is immaterial. \<open>lowest_value\<close> starts as \<open>0\<close>.
\<close>

fun closest_loop :: "real \<Rightarrow> real list \<Rightarrow> bool \<Rightarrow> real \<Rightarrow> real \<Rightarrow> real" where
  "closest_loop input_value [] first_run min_delta lowest_value = lowest_value"
| "closest_loop input_value (v # rest) first_run min_delta lowest_value =
     (let delta = \<bar>v - input_value\<bar>;
          min_delta1 = (if \<not> first_run then delta else min_delta);
          min_delta2 = (if delta < min_delta1 then delta else min_delta1);
          lowest_value2 = (if delta < min_delta1 then v else lowest_value)
      in if delta = 0 then v
         else closest_loop input_value rest True min_delta2 lowest_value2)"

definition get_closest_value ::
  "real \<Rightarrow> real \<Rightarrow> real \<Rightarrow> int list \<Rightarrow> (error + real) option" where
  "get_closest_value input_value MIN_V MAX_V MANTISSA =
     (case calc_valid_inputs MIN_V MAX_V MANTISSA of
        None \<Rightarrow> None
      | Some (Inl err) \<Rightarrow> Some (Inl err)
      | Some (Inr possible_values) \<Rightarrow>
          Some (Inr (closest_loop input_value possible_values False 0 0)))"

subsection \<open>\<^verbatim>\<open>validate_input\<close>\<close>

text \<open>
  \<^verbatim>\<open>min(vals_valid, key = ...)\<close>: Python's \<^verbatim>\<open>min\<close> raises \<^verbatim>\<open>ValueError\<close> on an empty
  sequence and otherwise keeps the running item, replacing it only by an item whose key is
  strictly smaller.
\<close>

fun min_key_loop :: "('a \<Rightarrow> real) \<Rightarrow> 'a \<Rightarrow> 'a list \<Rightarrow> 'a" where
  "min_key_loop key best [] = best"
| "min_key_loop key best (x # xs) =
     (if key x < key best then min_key_loop key x xs else min_key_loop key best xs)"

definition min_py :: "('a \<Rightarrow> real) \<Rightarrow> 'a list \<Rightarrow> error + 'a" where
  "min_py key xs = (case xs of [] \<Rightarrow> Inl ValueError | x # rest \<Rightarrow> Inr (min_key_loop key x rest))"

definition validate_input :: "real \<Rightarrow> real list \<Rightarrow> error + real" where
  "validate_input target vals_valid = min_py (\<lambda>x. \<bar>x - target\<bar>) vals_valid"

subsection \<open>\<^verbatim>\<open>check_index\<close> and \<^verbatim>\<open>get_val_ceil\<close>\<close>

definition check_index :: "real \<Rightarrow> real list \<Rightarrow> error + nat" where
  "check_index target dataset = index_py dataset target"

text \<open>\<^verbatim>\<open>max(vals_valid)\<close> raises \<^verbatim>\<open>ValueError\<close> on an empty sequence.\<close>

definition max_py :: "real list \<Rightarrow> error + real" where
  "max_py xs = (case xs of [] \<Rightarrow> Inl ValueError | x # rest \<Rightarrow> Inr (fold max rest x))"

text \<open>
  The result is \<open>Inr (Some v)\<close> for \<^verbatim>\<open>return v\<close> and \<open>Inr None\<close> where the function
  falls off its end and Python returns \<^verbatim>\<open>None\<close>. The \<^verbatim>\<open>else\<close> branch is kept as the
  source has it; a list index past the end raises \<^verbatim>\<open>IndexError\<close>.
\<close>

definition get_val_ceil :: "real \<Rightarrow> real \<Rightarrow> real list \<Rightarrow> error + real option" where
  "get_val_ceil target validated vals_valid =
     (if target \<le> validated then Inr (Some validated)
      else if target > validated then
        (case max_py vals_valid of
           Inl err \<Rightarrow> Inl err
         | Inr m \<Rightarrow> if target > m then Inr (Some validated) else Inr None)
      else
        (case check_index validated vals_valid of
           Inl err \<Rightarrow> Inl err
         | Inr i \<Rightarrow>
             if i + 1 < length vals_valid then Inr (Some (vals_valid ! (i + 1)))
             else Inl IndexError))"

subsection \<open>The sample loop of \<^verbatim>\<open>capture\<close>\<close>

text \<open>
  \<^verbatim>\<open>query_binary_values(..., datatype = 'h')\<close> yields signed 16-bit samples. The loop
  \<^verbatim>\<open>for index, value in enumerate(adc_wave)\<close> appends one voltage and one time per sample.
\<close>

fun capture_loop ::
  "nat \<Rightarrow> 16 word list \<Rightarrow> real \<Rightarrow> real \<Rightarrow> real \<Rightarrow> real list \<Rightarrow> real list
     \<Rightarrow> real list \<times> real list" where
  "capture_loop index [] scale_time scale_voltage offset_divisons time volt_wave =
     (time, volt_wave)"
| "capture_loop index (v # rest) scale_time scale_voltage offset_divisons time volt_wave =
     capture_loop (index + 1) rest scale_time scale_voltage offset_divisons
       (time @ [scale_time * real index])
       (volt_wave @ [(real_of_int (sint v) / 6400 - offset_divisons) * scale_voltage])"

text \<open>
  The decoding step of \<^verbatim>\<open>capture\<close>, with the values the driver reads from the instrument
  as arguments: the raw block, the vertical scale, the offset in divisions and the timebase.
  The result is the pair \<^verbatim>\<open>(time, volt_wave)\<close>.
\<close>

definition decode :: "16 word list \<Rightarrow> real \<Rightarrow> real \<Rightarrow> real \<Rightarrow> real list \<times> real list" where
  "decode adc_wave scale_voltage offset_divisons scale_time =
     capture_loop 0 adc_wave scale_time scale_voltage offset_divisons [] []"

subsection \<open>The token of the \<^verbatim>\<open>timebase\<close> setter\<close>






subsection \<open>The quantity formatter\<close>









section \<open>Evaluation rules\<close>

lemma exp10_ge_step: "10 \<le> x \<Longrightarrow> exp10_ge x = exp10_ge (x / 10) + 1"
  by (subst exp10_ge.simps) simp

lemma exp10_ge_stop: "x < 10 \<Longrightarrow> exp10_ge x = 0"
  by (subst exp10_ge.simps) simp

lemma exp10_lt_step: "0 < x \<Longrightarrow> x < 1 \<Longrightarrow> exp10_lt x = exp10_lt (x * 10) - 1"
  by (subst exp10_lt.simps) simp

lemma exp10_lt_stop: "x \<le> 0 \<or> 1 \<le> x \<Longrightarrow> exp10_lt x = 0"
  by (subst exp10_lt.simps) auto

lemma calc_loop_step:
  "val \<le> MAX_VAL \<Longrightarrow>
   calc_loop MAX_VAL MANTISSA idx_mantissa exponent val values_valid =
   calc_loop MAX_VAL MANTISSA
     ((idx_mantissa + 1) mod length MANTISSA)
     (if (idx_mantissa + 1) mod length MANTISSA = 0 then exponent + 1 else exponent)
     (float_of_literal
        (MANTISSA ! ((idx_mantissa + 1) mod length MANTISSA))
        (if (idx_mantissa + 1) mod length MANTISSA = 0 then exponent + 1 else exponent))
     (values_valid @ [val])"
  by (subst calc_loop.simps) simp

lemma calc_loop_stop:
  "\<not> val \<le> MAX_VAL \<Longrightarrow>
   calc_loop MAX_VAL MANTISSA idx_mantissa exponent val values_valid = Some values_valid"
  by (subst calc_loop.simps) simp

lemmas format_eval =
  format_e_def sci_exponent_def round_half_even_def Let_def
  exp10_ge_step exp10_ge_stop exp10_lt_step exp10_lt_stop
  leading_char_int_def exponent_int_def

lemmas calc_eval =
  format_eval calc_valid_inputs_def float_of_literal_def calc_loop_step calc_loop_stop

lemmas digit_eval =
  leading_significant_digit_def sci_exponent_def
  exp10_ge_step exp10_ge_stop exp10_lt_step exp10_lt_stop




section \<open>The generated sequence of the running example\<close>

text \<open>
  C5. \<^verbatim>\<open>calc_valid_inputs(2e-3, 10, (1, 2, 5))\<close> returns the twelve values from \<open>0.002\<close>
  to \<open>10\<close>: the loop condition \<^verbatim>\<open>value <= MAX_VAL\<close> admits the bound itself, so \<open>10\<close> is
  the last element.
\<close>

theorem calc_valid_inputs_example:
  "calc_valid_inputs 0.002 10 [1, 2, 5] =
     Some (Inr [0.002, 0.005, 0.01, 0.02, 0.05, 0.1, 0.2, 0.5, 1, 2, 5, 10])"
  by (simp add: calc_eval)

section \<open>Bounds of the number format\<close>

lemma p10_pos: "0 < (10::real) powi k"
  by simp

lemma p10_Suc: "(10::real) powi (k + 1) = 10 powi k * 10"
  by (rule power_int_add_1) simp

lemma p10_pred: "(10::real) powi (k - 1) = 10 powi k / 10"
proof -
  have "(10::real) powi (k - 1 + 1) = 10 powi (k - 1) * 10" by (rule p10_Suc)
  then show ?thesis by simp
qed

lemma exp10_ge_bounds:
  "1 \<le> x \<Longrightarrow> 10 powi (exp10_ge x) \<le> x \<and> x < 10 powi (exp10_ge x + 1)"
proof (induction x rule: exp10_ge.induct)
  case (1 x)
  show ?case
  proof (cases "10 \<le> x")
    case True
    define k where "k = exp10_ge (x / 10)"
    from True have "1 \<le> x / 10" by simp
    with 1 True have ih: "10 powi k \<le> x / 10" "x / 10 < 10 powi (k + 1)"
      unfolding k_def by blast+
    have e: "exp10_ge x = k + 1" unfolding k_def using True by (rule exp10_ge_step)
    have a: "(10::real) powi (k + 1) = 10 powi k * 10" by (rule p10_Suc)
    have b: "(10::real) powi (k + 1 + 1) = 10 powi (k + 1) * 10" by (rule p10_Suc)
    from ih a b have "10 powi (k + 1) \<le> x \<and> x < 10 powi (k + 1 + 1)" by linarith
    then show ?thesis unfolding e .
  next
    case False
    then have "exp10_ge x = 0" by (simp add: exp10_ge_stop)
    with False 1(2) show ?thesis by simp
  qed
qed

lemma exp10_lt_bounds:
  "0 < x \<Longrightarrow> x < 1 \<Longrightarrow> 10 powi (exp10_lt x) \<le> x \<and> x < 10 powi (exp10_lt x + 1)"
proof (induction x rule: exp10_lt.induct)
  case (1 x)
  define k where "k = exp10_lt (x * 10)"
  have e: "exp10_lt x = k - 1" unfolding k_def using 1(2,3) by (rule exp10_lt_step)
  have a: "(10::real) powi (k - 1 + 1) = 10 powi (k - 1) * 10" by (rule p10_Suc)
  have a': "k - 1 + 1 = k" by simp
  show ?case
  proof (cases "x * 10 < 1")
    case True
    with 1 have ih: "10 powi k \<le> x * 10" "x * 10 < 10 powi (k + 1)"
      unfolding k_def by simp_all
    have b: "(10::real) powi (k + 1) = 10 powi k * 10" by (rule p10_Suc)
    from ih a b have "10 powi (k - 1) \<le> x \<and> x < 10 powi (k - 1 + 1)"
      unfolding a' by linarith
    then show ?thesis unfolding e .
  next
    case False
    then have "k = 0" unfolding k_def by (simp add: exp10_lt_stop)
    with False 1(3) show ?thesis unfolding e by simp
  qed
qed

lemma sci_exponent_bounds:
  "0 < x \<Longrightarrow> 10 powi (sci_exponent x) \<le> x \<and> x < 10 powi (sci_exponent x + 1)"
  using exp10_ge_bounds [of x] exp10_lt_bounds [of x]
  by (cases "1 \<le> x") (simp_all add: sci_exponent_def)

lemma round_half_even_near: "\<bar>real_of_int (round_half_even y) - y\<bar> \<le> 1 / 2"
proof -
  have "real_of_int \<lfloor>y\<rfloor> \<le> y" "y < real_of_int \<lfloor>y\<rfloor> + 1" by linarith+
  then show ?thesis by (auto simp: round_half_even_def Let_def)
qed

lemma round_half_even_ge: "real_of_int n \<le> y \<Longrightarrow> n \<le> round_half_even y"
  using round_half_even_near [of y] by linarith

lemma round_half_even_le: "y \<le> real_of_int n \<Longrightarrow> round_half_even y \<le> n"
  using round_half_even_near [of y] by linarith

lemma index_py_Inr: "index_py xs y = Inr i \<Longrightarrow> i < length xs \<and> xs ! i = y"
  by (induction xs arbitrary: i) (auto split: if_splits sum.splits)

lemma index_py_found: "y \<in> set xs \<Longrightarrow> \<exists>i. index_py xs y = Inr i"
  by (induction xs) (auto split: sum.splits)

lemma index_py_missing: "y \<notin> set xs \<Longrightarrow> index_py xs y = Inl ValueError"
  by (induction xs) auto

lemma format_e_pos:
  assumes "0 < x"
  shows "\<exists>d e. format_e x = (False, d, e) \<and> 1 \<le> d \<and> d \<le> 9 \<and>
           x < (of_int d + 1) * 10 powi e"
proof -
  define s where "s = sci_exponent x"
  define P where "P = (10::real) powi (6 - s)"
  define Q where "Q = (10::real) powi (s - 6)"
  define y where "y = x * P"
  define m where "m = round_half_even y"
  from sci_exponent_bounds [OF assms] have lo: "10 powi s \<le> x" and hi: "x < 10 powi (s + 1)"
    unfolding s_def by simp_all
  have P0: "0 < P" and Q0: "0 < Q" unfolding P_def Q_def by simp_all
  have "(10::real) powi (s + (6 - s)) = 10 powi s * 10 powi (6 - s)"
    by (rule power_int_add) simp
  then have sP: "10 powi s * P = 1000000" unfolding P_def by simp
  have "(10::real) powi ((6 - s) + (s - 6)) = 10 powi (6 - s) * 10 powi (s - 6)"
    by (rule power_int_add) simp
  then have PQ: "P * Q = 1" unfolding P_def Q_def by simp
  have "(10::real) powi (6 + (s - 6)) = 10 powi 6 * 10 powi (s - 6)"
    by (rule power_int_add) simp
  then have sQ: "10 powi s = 1000000 * Q" unfolding Q_def by simp
  have s1: "(10::real) powi (s + 1) = 10 powi s * 10" by (rule p10_Suc)
  from lo P0 have "10 powi s * P \<le> x * P" by (simp only: mult_right_mono less_imp_le)
  then have ylo: "1000000 \<le> y" unfolding y_def sP .
  from hi P0 have "x * P < 10 powi (s + 1) * P" by (simp only: mult_strict_right_mono)
  also have "10 powi (s + 1) * P = 10000000"
  proof -
    have "10 powi s * 10 * P = 10 * (10 powi s * P)" by simp
    then show ?thesis unfolding s1 sP by simp
  qed
  finally have yhi: "y < 10000000" unfolding y_def .
  have mlo: "1000000 \<le> m" unfolding m_def using round_half_even_ge [of 1000000 y] ylo by simp
  have mhi: "m \<le> 10000000" unfolding m_def using round_half_even_le [of y 10000000] yhi by simp
  have near: "\<bar>real_of_int m - y\<bar> \<le> 1 / 2" unfolding m_def by (rule round_half_even_near)
  have xy: "x = y * Q"
  proof -
    have "y * Q = x * (P * Q)" unfolding y_def by simp
    then show ?thesis unfolding PQ by simp
  qed
  have fe: "format_e x = (if m = 10000000 then (False, 1, s + 1) else (False, m div 1000000, s))"
    using assms by (simp add: format_e_def Let_def s_def y_def m_def P_def)
  show ?thesis
  proof (cases "m = 10000000")
    case True
    have p: "0 < (10::real) powi (s + 1)" by (rule p10_pos)
    from hi p have "x < 2 * 10 powi (s + 1)" by linarith
    then have "x < (of_int 1 + 1) * 10 powi (s + 1)" by simp
    with fe True show ?thesis by auto
  next
    case False
    define d where "d = m div 1000000"
    from mlo mhi False have d1: "1 \<le> d" and d9: "d \<le> 9" unfolding d_def by linarith+
    define r where "r = m mod 1000000"
    have "m = 1000000 * d + r" unfolding d_def r_def by simp
    moreover have "r < 1000000" unfolding r_def by simp
    ultimately have "m < (d + 1) * 1000000" by (simp add: algebra_simps)
    then have "m + 1 \<le> (d + 1) * 1000000" by simp
    then have "real_of_int (m + 1) \<le> real_of_int ((d + 1) * 1000000)" by (simp only: of_int_le_iff)
    then have "real_of_int m + 1 \<le> (real_of_int d + 1) * 1000000" by simp
    with near have "y < (real_of_int d + 1) * 1000000" by linarith
    with Q0 have "y * Q < (real_of_int d + 1) * 1000000 * Q" by (simp only: mult_strict_right_mono)
    then have "y * Q < (real_of_int d + 1) * (1000000 * Q)" by (simp only: mult.assoc)
    then have "x < (real_of_int d + 1) * 10 powi s" unfolding xy sQ .
    with fe False d1 d9 show ?thesis unfolding d_def by auto
  qed
qed

section \<open>The sequence generator\<close>

lemma fl_ge: "1 \<le> m \<Longrightarrow> 10 powi e \<le> float_of_literal m e"
proof -
  assume "1 \<le> m"
  then have "(1::real) \<le> of_int m" by simp
  then have "1 * 10 powi e \<le> real_of_int m * 10 powi e"
    by (rule mult_right_mono) simp
  then show ?thesis by (simp add: float_of_literal_def)
qed

lemma fl_mono: "m \<le> m' \<Longrightarrow> float_of_literal m e \<le> float_of_literal m' e"
  unfolding float_of_literal_def by (rule mult_right_mono) simp_all

lemma fl_strict: "m < m' \<Longrightarrow> float_of_literal m e < float_of_literal m' e"
  unfolding float_of_literal_def by (rule mult_strict_right_mono) simp_all

lemma next_value_gt:
  fixes M :: "int list"
  assumes srt: "sorted_wrt (<) M" and dig: "\<forall>m\<in>set M. 1 \<le> m \<and> m \<le> 9"
    and idx: "idx < length M" and v: "val < float_of_literal (M ! idx + 1) e"
  shows "val < float_of_literal (M ! ((idx + 1) mod length M))
                 (if (idx + 1) mod length M = 0 then e + 1 else e)"
proof (cases "idx + 1 < length M")
  case True
  then have m: "(idx + 1) mod length M = idx + 1" by simp
  from srt True have "M ! idx < M ! (idx + 1)" by (simp add: sorted_wrt_nth_less)
  then have "M ! idx + 1 \<le> M ! (idx + 1)" by simp
  then have "float_of_literal (M ! idx + 1) e \<le> float_of_literal (M ! (idx + 1)) e"
    by (rule fl_mono)
  with v show ?thesis unfolding m by simp
next
  case False
  with idx have "idx + 1 = length M" by simp
  then have m: "(idx + 1) mod length M = 0" by simp
  from idx have "0 < length M" by linarith
  with idx have "M ! idx \<in> set M" "M ! 0 \<in> set M" by (simp_all only: nth_mem)
  with dig have hi: "M ! idx \<le> 9" and lo: "1 \<le> M ! 0" by blast+
  have "float_of_literal (M ! idx + 1) e \<le> float_of_literal 10 e"
    using hi by (intro fl_mono) simp
  also have "float_of_literal 10 e = 10 powi (e + 1)"
    by (simp add: float_of_literal_def p10_Suc)
  also have "10 powi (e + 1) \<le> float_of_literal (M ! 0) (e + 1)" using lo by (rule fl_ge)
  finally show ?thesis using v unfolding m by simp
qed

lemma calc_loop_regular:
  fixes M :: "int list"
  assumes srt: "sorted_wrt (<) M" and dig: "\<forall>m\<in>set M. 1 \<le> m \<and> m \<le> 9"
    and E: "MAX_V < 10 powi E"
  shows "idx < length M \<Longrightarrow>
    \<exists>seq. calc_loop MAX_V M idx e (float_of_literal (M ! idx) e) acc = Some (acc @ seq) \<and>
      sorted_wrt (<) seq \<and>
      (\<forall>v\<in>set seq. float_of_literal (M ! idx) e \<le> v \<and> v \<le> MAX_V \<and>
         (\<exists>m\<in>set M. \<exists>k. v = float_of_literal m k))"
proof (induction "nat (E - e) * length M + (length M - idx)" arbitrary: idx e acc rule: less_induct)
  case less
  let ?v = "float_of_literal (M ! idx) e"
  show ?case
  proof (cases "?v \<le> MAX_V")
    case False
    then have "calc_loop MAX_V M idx e ?v acc = Some acc" by (rule calc_loop_stop)
    then show ?thesis by simp
  next
    case True
    define idx' where "idx' = (idx + 1) mod length M"
    define e' where "e' = (if idx' = 0 then e + 1 else e)"
    let ?v' = "float_of_literal (M ! idx') e'"
    have step: "calc_loop MAX_V M idx e ?v acc = calc_loop MAX_V M idx' e' ?v' (acc @ [?v])"
      unfolding idx'_def e'_def using True by (rule calc_loop_step)
    from less.prems have "0 < length M" by linarith
    then have i': "idx' < length M" unfolding idx'_def by (rule mod_less_divisor)
    from less.prems have mem: "M ! idx \<in> set M" by simp
    with dig have m1: "1 \<le> M ! idx" by blast
    have eE: "e < E"
    proof (rule ccontr)
      assume "\<not> e < E"
      then have "E \<le> e" by simp
      then have "(10::real) powi E \<le> 10 powi e" by (rule power_int_increasing) simp
      also have "\<dots> \<le> ?v" using m1 by (rule fl_ge)
      finally show False using True E by simp
    qed
    have meas: "nat (E - e') * length M + (length M - idx')
                  < nat (E - e) * length M + (length M - idx)"
    proof (cases "idx + 1 < length M")
      case True
      then have "idx' = idx + 1" unfolding idx'_def by simp
      moreover then have "e' = e" unfolding e'_def by simp
      ultimately show ?thesis using True by simp
    next
      case False
      with less.prems have "idx + 1 = length M" by simp
      then have z: "idx' = 0" unfolding idx'_def by simp
      then have e1: "e' = e + 1" unfolding e'_def by simp
      from eE have "nat (E - e) = Suc (nat (E - (e + 1)))" by simp
      then have "nat (E - e) * length M = nat (E - (e + 1)) * length M + length M" by simp
      with less.prems show ?thesis unfolding z e1 by simp
    qed
    from less.hyps [OF meas i', of "acc @ [?v]"] obtain seq' where
      r: "calc_loop MAX_V M idx' e' ?v' (acc @ [?v]) = Some ((acc @ [?v]) @ seq')"
      and s: "sorted_wrt (<) seq'"
      and a: "\<forall>v\<in>set seq'. ?v' \<le> v \<and> v \<le> MAX_V \<and> (\<exists>m\<in>set M. \<exists>k. v = float_of_literal m k)"
      by blast
    have "?v < float_of_literal (M ! idx + 1) e" by (rule fl_strict) simp
    with srt dig less.prems have gt: "?v < ?v'" unfolding idx'_def e'_def by (rule next_value_gt)
    have 1: "calc_loop MAX_V M idx e ?v acc = Some (acc @ (?v # seq'))" using step r by simp
    have 2: "sorted_wrt (<) (?v # seq')" using s a gt by auto
    have 3: "\<forall>v\<in>set (?v # seq'). ?v \<le> v \<and> v \<le> MAX_V \<and> (\<exists>m\<in>set M. \<exists>k. v = float_of_literal m k)"
    proof
      fix v assume "v \<in> set (?v # seq')"
      then consider "v = ?v" | "v \<in> set seq'" by auto
      then show "?v \<le> v \<and> v \<le> MAX_V \<and> (\<exists>m\<in>set M. \<exists>k. v = float_of_literal m k)"
      proof cases
        case 1
        with True mem show ?thesis by blast
      next
        case 2
        with a have "?v' \<le> v" "v \<le> MAX_V" "\<exists>m\<in>set M. \<exists>k. v = float_of_literal m k" by blast+
        with gt show ?thesis by simp
      qed
    qed
    from 1 2 3 show ?thesis by blast
  qed
qed

lemma pow10_above: "\<exists>E::int. (y::real) < 10 powi E"
proof -
  from real_arch_pow [of 10 y] obtain n where "y < 10 ^ n" by auto
  then have "y < 10 powi (int n)" by simp
  then show ?thesis ..
qed

lemma calc_valid_inputs_spec:
  fixes M :: "int list"
  assumes pos: "0 < MIN_V" and srt: "sorted_wrt (<) M" and dig: "\<forall>m\<in>set M. 1 \<le> m \<and> m \<le> 9"
    and ld: "leading_char_int MIN_V = Inr d" and dM: "d \<in> set M"
  shows "\<exists>seq. calc_valid_inputs MIN_V MAX_V M = Some (Inr seq) \<and>
           sorted_wrt (<) seq \<and>
           (\<forall>v\<in>set seq. MIN_V \<le> v \<and> v \<le> MAX_V) \<and>
           (MIN_V \<le> MAX_V \<longrightarrow> seq \<noteq> [] \<and> hd seq = MIN_V) \<and>
           (\<forall>v\<in>set (tl seq). \<exists>m\<in>set M. \<exists>k. v = float_of_literal m k)"
proof -
  from format_e_pos [OF pos] obtain d0 e0 where fe: "format_e MIN_V = (False, d0, e0)"
    and bound: "MIN_V < (of_int d0 + 1) * 10 powi e0" by blast
  from fe ld have d0: "d0 = d" by (simp add: leading_char_int_def)
  from fe have ex: "exponent_int MIN_V = e0" by (simp add: exponent_int_def)
  from index_py_found [OF dM] obtain i where ix: "index_py M d = Inr i" by blast
  from index_py_Inr [OF ix] have i: "i < length M" and Mi: "M ! i = d" by simp_all
  have cv: "calc_valid_inputs MIN_V MAX_V M = map_option Inr (calc_loop MAX_V M i e0 MIN_V [])"
    by (simp add: calc_valid_inputs_def ld ix ex)
  show ?thesis
  proof (cases "MIN_V \<le> MAX_V")
    case False
    then have "calc_loop MAX_V M i e0 MIN_V [] = Some []" by (rule calc_loop_stop)
    with cv False show ?thesis by simp
  next
    case True
    define i' where "i' = (i + 1) mod length M"
    define e' where "e' = (if i' = 0 then e0 + 1 else e0)"
    let ?v' = "float_of_literal (M ! i') e'"
    have step: "calc_loop MAX_V M i e0 MIN_V [] = calc_loop MAX_V M i' e' ?v' ([] @ [MIN_V])"
      unfolding i'_def e'_def using True by (rule calc_loop_step)
    from i have "0 < length M" by linarith
    then have i'l: "i' < length M" unfolding i'_def by (rule mod_less_divisor)
    obtain E :: int where E: "MAX_V < 10 powi E" using pow10_above by blast
    from calc_loop_regular [OF srt dig E i'l, of e' "[] @ [MIN_V]"] obtain seq' where
      r: "calc_loop MAX_V M i' e' ?v' ([] @ [MIN_V]) = Some (([] @ [MIN_V]) @ seq')"
      and s: "sorted_wrt (<) seq'"
      and a: "\<forall>v\<in>set seq'. ?v' \<le> v \<and> v \<le> MAX_V \<and> (\<exists>m\<in>set M. \<exists>k. v = float_of_literal m k)"
      by blast
    have "MIN_V < float_of_literal (M ! i + 1) e0"
      using bound unfolding Mi d0 by (simp add: float_of_literal_def)
    with srt dig i have gt: "MIN_V < ?v'" unfolding i'_def e'_def by (rule next_value_gt)
    have 1: "calc_valid_inputs MIN_V MAX_V M = Some (Inr (MIN_V # seq'))"
      using cv step r by simp
    have 2: "sorted_wrt (<) (MIN_V # seq')" using s a gt by auto
    have 3: "\<forall>v\<in>set (MIN_V # seq'). MIN_V \<le> v \<and> v \<le> MAX_V" using a gt True by auto
    have 4: "\<forall>v\<in>set (tl (MIN_V # seq')). \<exists>m\<in>set M. \<exists>k. v = float_of_literal m k"
      using a by simp
    from 1 2 3 4 show ?thesis by auto
  qed
qed

lemma not_step_value:
  fixes m :: int
  assumes "m \<le> 5"
  shows "(5 / 2 :: real) \<noteq> float_of_literal m k"
proof
  assume eq: "(5 / 2 :: real) = float_of_literal m k"
  show False
  proof (cases "0 \<le> k")
    case True
    then have "(10::real) powi k = of_int (10 ^ nat k)" by (simp add: power_int_def)
    with eq have "(5 / 2 :: real) = of_int (m * 10 ^ nat k)" by (simp add: float_of_literal_def)
    then have "real_of_int 5 = real_of_int (2 * (m * 10 ^ nat k))" by simp
    then have "(5::int) = 2 * (m * 10 ^ nat k)" by (simp only: of_int_eq_iff)
    then show False by presburger
  next
    case False
    define n where "n = nat (- k) - 1"
    from False have k: "nat (- k) = Suc n" unfolding n_def by simp
    from False have "(10::real) powi k = inverse 10 ^ Suc n" by (simp add: power_int_def k)
    with eq have "(5 / 2 :: real) = of_int m * inverse 10 ^ Suc n"
      by (simp add: float_of_literal_def)
    then have "(5 / 2 :: real) * 10 ^ Suc n = of_int m * (inverse 10 ^ Suc n * 10 ^ Suc n)"
      by simp
    also have "(inverse 10 ^ Suc n * 10 ^ Suc n :: real) = 1"
    proof -
      have "(inverse 10 ^ Suc n * 10 ^ Suc n :: real) = (inverse 10 * 10) ^ Suc n"
        by (simp only: power_mult_distrib)
      then show ?thesis by simp
    qed
    finally have "real_of_int (25 * 10 ^ n) = real_of_int m" by simp
    then have "25 * 10 ^ n = m" by (simp only: of_int_eq_iff)
    moreover have "(1::int) \<le> 10 ^ n" by simp
    ultimately show False using assms by linarith
  qed
qed

text \<open>
  C2, as stated: for \<open>0 < min \<le> max\<close>, mantissas sorted ascending and the leading
  significant digit of \<open>min\<close> among them, the result is strictly ascending and each of
  its elements is a mantissa times a power of ten. Three inputs meet the hypotheses and
  not the conclusion. For \<^verbatim>\<open>(2.5, 10, (1, 2, 5))\<close> the result starts with \<open>2.5\<close>, which is
  no mantissa times a power of ten. For \<^verbatim>\<open>(1, 100, (1, 3, 10))\<close> the result repeats \<open>10\<close>
  and \<open>100\<close>. For \<^verbatim>\<open>(1.99999996, 10, (1, 5))\<close> the leading significant digit is \<open>1\<close>,
  but the format rounds to \<^verbatim>\<open>2.000000e+00\<close> and \<^verbatim>\<open>MANTISSA.index(2)\<close> raises.
\<close>

theorem calc_valid_inputs_first_element_counterexample:
  "((0::real) < 2.5 \<and> (2.5::real) \<le> 10 \<and> sorted [1, 2, 5 :: int] \<and>
    leading_significant_digit 2.5 \<in> set [1, 2, 5] \<and>
    calc_valid_inputs 2.5 10 [1, 2, 5] = Some (Inr [2.5, 5, 10]) \<and>
    \<not> (\<exists>m\<in>set [1, 2, 5]. \<exists>k. (2.5::real) = float_of_literal m k)) \<and>
   (sorted [1, 3, 10 :: int] \<and> leading_significant_digit 1 \<in> set [1, 3, 10] \<and>
    calc_valid_inputs 1 100 [1, 3, 10] = Some (Inr [1, 3, 10, 10, 30, 100, 100]) \<and>
    \<not> sorted_wrt (<) [1, 3, 10, 10, 30, 100, 100 :: real]) \<and>
   (sorted [1, 5 :: int] \<and> leading_significant_digit 1.99999996 \<in> set [1, 5] \<and>
    calc_valid_inputs 1.99999996 10 [1, 5] = Some (Inl ValueError))"
proof -
  have a: "leading_significant_digit 2.5 \<in> set [1, 2, 5]" by (simp add: digit_eval)
  have b: "calc_valid_inputs 2.5 10 [1, 2, 5] = Some (Inr [2.5, 5, 10])"
    by (simp add: calc_eval)
  have c: "\<not> (\<exists>m\<in>set [1, 2, 5]. \<exists>k. (2.5::real) = float_of_literal m k)"
    using not_step_value [of 1] not_step_value [of 2] not_step_value [of 5] by simp
  have d: "leading_significant_digit 1 \<in> set [1, 3, 10]" by (simp add: digit_eval)
  have e: "calc_valid_inputs 1 100 [1, 3, 10] = Some (Inr [1, 3, 10, 10, 30, 100, 100])"
    by (simp add: calc_eval)
  have f: "leading_significant_digit 1.99999996 \<in> set [1, 5]" by (simp add: digit_eval)
  have g: "calc_valid_inputs 1.99999996 10 [1, 5] = Some (Inl ValueError)"
    by (simp add: calc_eval)
  from a b c d e f g show ?thesis by simp
qed

text \<open>
  C2, amended: for \<open>0 < min \<le> max\<close>, mantissas that are strictly ascending digits from
  \<open>1\<close> to \<open>9\<close>, and the leading digit of the rendering \<^verbatim>\<open>'{0:e}'.format(min)\<close> among
  them, \<^verbatim>\<open>calc_valid_inputs\<close> returns a non-empty, strictly ascending sequence whose first
  element is \<open>min\<close> and whose last element is at most \<open>max\<close>; every element after the
  first is the value of a literal \<^verbatim>\<open><mantissa>e<exponent>\<close> with the mantissa in the list;
  the first element is \<open>min\<close> as it was passed, so that all elements have this form when
  \<open>min\<close> has it.
\<close>

theorem calc_valid_inputs_ascending:
  fixes MANTISSA :: "int list"
  assumes "0 < MIN_VAL" and "MIN_VAL \<le> MAX_VAL"
    and "sorted_wrt (<) MANTISSA" and "\<forall>m\<in>set MANTISSA. 1 \<le> m \<and> m \<le> 9"
    and "leading_char_int MIN_VAL = Inr d" and "d \<in> set MANTISSA"
  shows "\<exists>seq. calc_valid_inputs MIN_VAL MAX_VAL MANTISSA = Some (Inr seq) \<and>
           seq \<noteq> [] \<and> sorted_wrt (<) seq \<and> hd seq = MIN_VAL \<and> last seq \<le> MAX_VAL \<and>
           (\<forall>v\<in>set (tl seq). \<exists>m\<in>set MANTISSA. \<exists>k. v = float_of_literal m k) \<and>
           ((\<exists>m\<in>set MANTISSA. \<exists>k. MIN_VAL = float_of_literal m k) \<longrightarrow>
              (\<forall>v\<in>set seq. \<exists>m\<in>set MANTISSA. \<exists>k. v = float_of_literal m k))"
proof -
  from calc_valid_inputs_spec [OF assms(1,3,4,5,6), of MAX_VAL] assms(2)
  obtain seq where r: "calc_valid_inputs MIN_VAL MAX_VAL MANTISSA = Some (Inr seq)"
    and s: "sorted_wrt (<) seq" and b: "\<forall>v\<in>set seq. MIN_VAL \<le> v \<and> v \<le> MAX_VAL"
    and h: "seq \<noteq> []" "hd seq = MIN_VAL"
    and t: "\<forall>v\<in>set (tl seq). \<exists>m\<in>set MANTISSA. \<exists>k. v = float_of_literal m k"
    by blast
  from h(1) have "last seq \<in> set seq" by simp
  with b have l: "last seq \<le> MAX_VAL" by blast
  from h have sq: "seq = MIN_VAL # tl seq" by (cases seq) simp_all
  have all: "(\<exists>m\<in>set MANTISSA. \<exists>k. MIN_VAL = float_of_literal m k) \<longrightarrow>
              (\<forall>v\<in>set seq. \<exists>m\<in>set MANTISSA. \<exists>k. v = float_of_literal m k)"
  proof (intro impI ballI)
    fix v assume m: "\<exists>m\<in>set MANTISSA. \<exists>k. MIN_VAL = float_of_literal m k" and "v \<in> set seq"
    then have "v = MIN_VAL \<or> v \<in> set (tl seq)" by (subst (asm) sq) simp
    with m t show "\<exists>m\<in>set MANTISSA. \<exists>k. v = float_of_literal m k" by blast
  qed
  from r h s l t all show ?thesis by blast
qed

theorem calc_valid_inputs_ascending_witness:
  "(0::real) < 0.002 \<and> (0.002::real) \<le> 10 \<and> sorted_wrt (<) [1, 2, 5 :: int] \<and>
   set [1, 2, 5 :: int] \<subseteq> {1..9} \<and>
   leading_char_int 0.002 = Inr 2 \<and> (2::int) \<in> set [1, 2, 5] \<and>
   (\<exists>seq. calc_valid_inputs 0.002 10 [1, 2, 5] = Some (Inr seq) \<and>
      seq \<noteq> [] \<and> sorted_wrt (<) seq \<and> hd seq = 0.002 \<and> last seq \<le> 10 \<and>
      (\<forall>v\<in>set (tl seq). \<exists>m\<in>set [1, 2, 5]. \<exists>k. v = float_of_literal m k) \<and>
      ((\<exists>m\<in>set [1, 2, 5]. \<exists>k. 0.002 = float_of_literal m k) \<longrightarrow>
         (\<forall>v\<in>set seq. \<exists>m\<in>set [1, 2, 5]. \<exists>k. v = float_of_literal m k)))"
proof -
  have h1: "(0::real) < 0.002" by simp
  have h2: "(0.002::real) \<le> 10" by simp
  have h3: "sorted_wrt (<) [1, 2, 5 :: int]" by simp
  have h4: "\<forall>m\<in>set [1, 2, 5 :: int]. 1 \<le> m \<and> m \<le> 9" by simp
  have h5: "leading_char_int 0.002 = Inr 2" by (simp add: format_eval)
  have h6: "(2::int) \<in> set [1, 2, 5]" by simp
  have h4': "set [1, 2, 5 :: int] \<subseteq> {1..9}" by simp
  from h1 h2 h3 h4' h5 h6 calc_valid_inputs_ascending [OF h1 h2 h3 h4 h5 h6]
  show ?thesis by blast
qed

text \<open>
  C6, as stated: the generator fails whenever the leading significant digit of \<open>min\<close> is
  not in the mantissa list. The leading significant digit of \<open>9.9999999\<close> is \<open>9\<close>, which
  is not in \<^verbatim>\<open>(1, 2, 5)\<close>; the format renders the number as \<^verbatim>\<open>1.000000e+01\<close>, the digit
  \<open>1\<close> is found, and a sequence is returned.
\<close>

theorem calc_valid_inputs_rounded_digit_counterexample:
  "leading_significant_digit 9.9999999 = 9 \<and> (9::int) \<notin> set [1, 2, 5] \<and>
   calc_valid_inputs 9.9999999 100 [1, 2, 5] = Some (Inr [9.9999999, 20, 50, 100])"
  by (simp add: digit_eval calc_eval)

text \<open>
  C6, amended: \<^verbatim>\<open>calc_valid_inputs\<close> raises \<^verbatim>\<open>ValueError\<close> and returns no sequence
  whenever \<open>min\<close> is negative, whenever the leading digit of the rendering
  \<^verbatim>\<open>'{0:e}'.format(min)\<close> (seven significant digits, rounded) is not in the mantissa list,
  and whenever \<open>min\<close> is \<open>0\<close> and the mantissas are positive.
\<close>

theorem calc_valid_inputs_failure:
  "(MIN_VAL < 0 \<longrightarrow> calc_valid_inputs MIN_VAL MAX_VAL MANTISSA = Some (Inl ValueError)) \<and>
   (leading_char_int MIN_VAL = Inr d \<and> d \<notin> set MANTISSA \<longrightarrow>
      calc_valid_inputs MIN_VAL MAX_VAL MANTISSA = Some (Inl ValueError)) \<and>
   (MIN_VAL = 0 \<and> (\<forall>m\<in>set MANTISSA. 0 < m) \<longrightarrow>
      calc_valid_inputs MIN_VAL MAX_VAL MANTISSA = Some (Inl ValueError))"
proof (intro conjI impI)
  assume "MIN_VAL < 0"
  then have "leading_char_int MIN_VAL = Inl ValueError"
    by (simp add: leading_char_int_def format_e_def Let_def)
  then show "calc_valid_inputs MIN_VAL MAX_VAL MANTISSA = Some (Inl ValueError)"
    by (simp add: calc_valid_inputs_def)
next
  assume "leading_char_int MIN_VAL = Inr d \<and> d \<notin> set MANTISSA"
  then show "calc_valid_inputs MIN_VAL MAX_VAL MANTISSA = Some (Inl ValueError)"
    by (simp add: calc_valid_inputs_def index_py_missing)
next
  assume a: "MIN_VAL = 0 \<and> (\<forall>m\<in>set MANTISSA. 0 < m)"
  then have "leading_char_int MIN_VAL = Inr 0" by (simp add: leading_char_int_def format_e_def)
  moreover from a have "(0::int) \<notin> set MANTISSA" by auto
  ultimately show "calc_valid_inputs MIN_VAL MAX_VAL MANTISSA = Some (Inl ValueError)"
    by (simp add: calc_valid_inputs_def index_py_missing)
qed

theorem calc_valid_inputs_failure_witness:
  "(- 3 :: real) < 0 \<and> calc_valid_inputs (- 3) 10 [1, 2, 5] = Some (Inl ValueError) \<and>
   leading_char_int 3 = Inr 3 \<and> (3::int) \<notin> set [1, 2, 5] \<and>
   calc_valid_inputs 3 10 [1, 2, 5] = Some (Inl ValueError) \<and>
   (0::int) \<notin> set [1, 2, 5] \<and>
   calc_valid_inputs 0 10 [1, 2, 5] = Some (Inl ValueError)"
proof -
  have h1: "(- 3 :: real) < 0" by simp
  have h2: "leading_char_int 3 = Inr 3" by (simp add: format_eval)
  have h3: "(3::int) \<notin> set [1, 2, 5]" by simp
  have h4: "\<forall>m\<in>set [1, 2, 5 :: int]. 0 < m" by simp
  have h5: "(0::int) \<notin> set [1, 2, 5]" by simp
  from h1 h2 h3 h4 h5
    calc_valid_inputs_failure [of "- 3" 10 "[1, 2, 5]" 3]
    calc_valid_inputs_failure [of 3 10 "[1, 2, 5]" 3]
    calc_valid_inputs_failure [of 0 10 "[1, 2, 5]" 3]
  show ?thesis by blast
qed

section \<open>The closest-value resolver\<close>

text \<open>
  C1. The resolver is to return the member of the generated sequence that is closest to the
  target, the first such member on a tie. In the loop of \<^verbatim>\<open>get_closest_value\<close> the first
  iteration stores its delta in \<open>min_delta\<close> and then tests \<^verbatim>\<open>delta < min_delta\<close>, which is
  false, so \<open>lowest_value\<close> keeps its initial \<open>0\<close>: when no later member is strictly
  closer and no member equals the target, the call returns \<open>0\<close>, which is not a member.
  For the target \<open>0.0021\<close> and the sequence of \<^verbatim>\<open>(2e-3, 10, (1, 2, 5))\<close> the closest member
  is \<open>0.002\<close>, which \<^verbatim>\<open>validate_input\<close> returns on the same sequence.
\<close>

theorem get_closest_value_loses_first_member:
  "get_closest_value 0.0021 0.002 10 [1, 2, 5] = Some (Inr 0) \<and>
   validate_input 0.0021 [0.002, 0.005, 0.01, 0.02, 0.05, 0.1, 0.2, 0.5, 1, 2, 5, 10] = Inr 0.002"
  by (simp add: get_closest_value_def calc_eval validate_input_def min_py_def)

lemma closest_loop_member:
  "v \<in> set seq \<Longrightarrow> closest_loop v seq first_run min_delta lowest_value = v"
  by (induction seq arbitrary: first_run min_delta lowest_value) (auto simp: Let_def)

lemma closest_loop_range:
  "closest_loop x seq first_run min_delta lowest_value = lowest_value \<or>
   closest_loop x seq first_run min_delta lowest_value \<in> set seq"
proof (induction seq arbitrary: first_run min_delta lowest_value)
  case Nil
  show ?case by simp
next
  case (Cons v rest)
  define delta where "delta = \<bar>v - x\<bar>"
  define md1 where "md1 = (if \<not> first_run then delta else min_delta)"
  define md2 where "md2 = (if delta < md1 then delta else md1)"
  define lw2 where "lw2 = (if delta < md1 then v else lowest_value)"
  have e: "closest_loop x (v # rest) first_run min_delta lowest_value =
             (if delta = 0 then v else closest_loop x rest True md2 lw2)"
    by (simp add: Let_def delta_def md1_def md2_def lw2_def)
  from Cons [of True md2 lw2] have "closest_loop x rest True md2 lw2 = lw2 \<or>
    closest_loop x rest True md2 lw2 \<in> set rest" .
  moreover have "lw2 = v \<or> lw2 = lowest_value" unfolding lw2_def by simp
  ultimately show ?case unfolding e by auto
qed

lemma closest_loop_zero_running:
  "\<forall>v\<in>set seq. min_delta \<le> v \<and> 0 < v \<Longrightarrow>
   closest_loop 0 seq True min_delta lowest_value = lowest_value"
  by (induction seq) (auto simp: Let_def)

lemma closest_loop_zero:
  assumes "sorted_wrt (<) seq" and "\<forall>v\<in>set seq. 0 < v"
  shows "closest_loop 0 seq False min_delta 0 = 0"
proof (cases seq)
  case Nil
  then show ?thesis by simp
next
  case (Cons v rest)
  from assms Cons have "\<forall>u\<in>set rest. v \<le> u \<and> 0 < u" by auto
  then have "closest_loop 0 rest True v 0 = 0" by (rule closest_loop_zero_running)
  moreover from assms Cons have "0 < v" by simp
  ultimately show ?thesis unfolding Cons by (simp add: Let_def)
qed

text \<open>
  C9. For a positive \<open>min\<close>, mantissas that are strictly ascending digits from \<open>1\<close> to \<open>9\<close>
  and the rendered leading digit of \<open>min\<close> among them, so that a sequence is generated:
  \<^verbatim>\<open>get_closest_value\<close> returns for every target, and resolving its result again gives
  the same result; and every member of the generated sequence is resolved to itself.
\<close>

theorem get_closest_value_idempotent:
  fixes MANTISSA :: "int list"
  assumes "0 < MIN_V"
    and "sorted_wrt (<) MANTISSA" and "\<forall>m\<in>set MANTISSA. 1 \<le> m \<and> m \<le> 9"
    and "leading_char_int MIN_V = Inr d" and "d \<in> set MANTISSA"
  shows "(\<exists>r. get_closest_value x MIN_V MAX_V MANTISSA = Some (Inr r) \<and>
              get_closest_value r MIN_V MAX_V MANTISSA = Some (Inr r)) \<and>
         (\<exists>seq. calc_valid_inputs MIN_V MAX_V MANTISSA = Some (Inr seq) \<and>
              (\<forall>v\<in>set seq. get_closest_value v MIN_V MAX_V MANTISSA = Some (Inr v)))"
proof -
  from calc_valid_inputs_spec [OF assms, of MAX_V]
  obtain seq where c: "calc_valid_inputs MIN_V MAX_V MANTISSA = Some (Inr seq)"
    and s: "sorted_wrt (<) seq" and b: "\<forall>v\<in>set seq. MIN_V \<le> v \<and> v \<le> MAX_V"
    by blast
  from b assms(1) have p: "\<forall>v\<in>set seq. 0 < v" by auto
  have g: "get_closest_value y MIN_V MAX_V MANTISSA = Some (Inr (closest_loop y seq False 0 0))"
    for y by (simp add: get_closest_value_def c)
  define r where "r = closest_loop x seq False 0 0"
  have "closest_loop r seq False 0 0 = r"
  proof (cases "r \<in> set seq")
    case True
    then show ?thesis by (rule closest_loop_member)
  next
    case False
    with closest_loop_range [of x seq False 0 0] have "r = 0" unfolding r_def by auto
    with closest_loop_zero [OF s p, of 0] show ?thesis by simp
  qed
  then have 1: "get_closest_value x MIN_V MAX_V MANTISSA = Some (Inr r) \<and>
                get_closest_value r MIN_V MAX_V MANTISSA = Some (Inr r)"
    unfolding g r_def by simp
  have 2: "\<forall>v\<in>set seq. get_closest_value v MIN_V MAX_V MANTISSA = Some (Inr v)"
    unfolding g by (simp add: closest_loop_member)
  from 1 2 c show ?thesis by blast
qed

theorem get_closest_value_idempotent_witness:
  "(0::real) < 0.002 \<and> sorted_wrt (<) [1, 2, 5 :: int] \<and>
   set [1, 2, 5 :: int] \<subseteq> {1..9} \<and>
   leading_char_int 0.002 = Inr 2 \<and> (2::int) \<in> set [1, 2, 5] \<and>
   get_closest_value 0.25 0.002 10 [1, 2, 5] = Some (Inr 0.2) \<and>
   get_closest_value 0.2 0.002 10 [1, 2, 5] = Some (Inr 0.2)"
proof -
  have h1: "(0::real) < 0.002" by simp
  have h3: "sorted_wrt (<) [1, 2, 5 :: int]" by simp
  have h4: "\<forall>m\<in>set [1, 2, 5 :: int]. 1 \<le> m \<and> m \<le> 9" by simp
  have h5: "leading_char_int 0.002 = Inr 2" by (simp add: format_eval)
  have h6: "(2::int) \<in> set [1, 2, 5]" by simp
  have ev: "get_closest_value 0.25 0.002 10 [1, 2, 5] = Some (Inr 0.2)"
    by (simp add: get_closest_value_def calc_eval)
  from get_closest_value_idempotent [OF h1 h3 h4 h5 h6, where x = "0.25" and MAX_V = 10]
  obtain r where a: "get_closest_value 0.25 0.002 10 [1, 2, 5] = Some (Inr r)"
    and b: "get_closest_value r 0.002 10 [1, 2, 5] = Some (Inr r)" by blast
  from a have "r = 0.2" unfolding ev by simp
  with b have "get_closest_value 0.2 0.002 10 [1, 2, 5] = Some (Inr 0.2)" by simp
  moreover have "set [1, 2, 5 :: int] \<subseteq> {1..9}" by simp
  ultimately show ?thesis using h1 h3 h5 h6 ev by blast
qed

section \<open>The ceiling helper\<close>

text \<open>
  C3. \<^verbatim>\<open>get_val_ceil\<close> is documented to return the next larger valid value when the
  target lies above the validated value and within the list; its docstring gives
  \<^verbatim>\<open>get_val_ceil(10.1, 10, [1, 2, 5, 10, 20, 50])\<close> as \<open>20\<close>. The branch that reads the next
  element hangs under an \<^verbatim>\<open>else\<close> that follows \<^verbatim>\<open>target <= validated\<close> and
  \<^verbatim>\<open>target > validated\<close>, so it is never taken, and the call of the docstring falls off
  the end of the function: it returns \<^verbatim>\<open>None\<close>.
\<close>

theorem get_val_ceil_docstring_example:
  "get_val_ceil 10.1 10 [1, 2, 5, 10, 20, 50] = Inr None"
  by (simp add: get_val_ceil_def max_py_def)

section \<open>Empty sequences\<close>

text \<open>
  C4, as stated: resolving against an empty sequence raises an error, in
  \<^verbatim>\<open>get_closest_value\<close> as in \<^verbatim>\<open>validate_input\<close>. With \<^verbatim>\<open>MIN = 10\<close> and \<^verbatim>\<open>MAX = 2\<close> the
  generated sequence is empty and \<^verbatim>\<open>get_closest_value\<close> returns \<open>0\<close>.
\<close>

theorem get_closest_value_empty_counterexample:
  "calc_valid_inputs 10 2 [1, 2, 5] = Some (Inr []) \<and>
   get_closest_value 1 10 2 [1, 2, 5] = Some (Inr 0)"
  by (simp add: get_closest_value_def calc_eval)

text \<open>
  C4, amended: \<^verbatim>\<open>validate_input\<close> raises \<^verbatim>\<open>ValueError\<close> on an empty list, for every
  target. \<^verbatim>\<open>get_closest_value\<close> has no check of its own: whenever the sequence it
  generates is empty, the loop body does not run and the initial value \<open>0\<close> of
  \<open>lowest_value\<close> is returned.
\<close>

theorem empty_sequence_behaviour:
  "validate_input target [] = Inl ValueError \<and>
   (calc_valid_inputs MIN_V MAX_V MANTISSA = Some (Inr []) \<longrightarrow>
      get_closest_value input_value MIN_V MAX_V MANTISSA = Some (Inr 0))"
  by (simp add: validate_input_def min_py_def get_closest_value_def)

theorem empty_sequence_behaviour_witness:
  "validate_input 1 [] = Inl ValueError \<and>
   calc_valid_inputs 10 2 [1, 2, 5] = Some (Inr []) \<and>
   get_closest_value 1 10 2 [1, 2, 5] = Some (Inr 0)"
proof -
  have gen: "calc_valid_inputs 10 2 [1, 2, 5] = Some (Inr [])"
    by (simp add: calc_eval)
  from empty_sequence_behaviour [of 1 10 2 "[1, 2, 5]" 1] gen show ?thesis by blast
qed

section \<open>The second resolver\<close>

lemma min_key_loop_spec:
  "key (min_key_loop key best xs) \<le> key best \<and>
   (\<forall>x\<in>set xs. key (min_key_loop key best xs) \<le> key x) \<and>
   ((min_key_loop key best xs = best) \<or>
    (\<exists>ys zs. xs = ys @ min_key_loop key best xs # zs \<and>
       key (min_key_loop key best xs) < key best \<and>
       (\<forall>y\<in>set ys. key (min_key_loop key best xs) < key y)))"
proof (induction xs arbitrary: best)
  case Nil
  show ?case by simp
next
  case (Cons x xs)
  show ?case
  proof (cases "key x < key best")
    case True
    let ?r = "min_key_loop key x xs"
    have r: "min_key_loop key best (x # xs) = ?r" using True by simp
    from Cons.IH [of x] have le: "key ?r \<le> key x" and all: "\<forall>y\<in>set xs. key ?r \<le> key y"
      and pos: "?r = x \<or> (\<exists>ys zs. xs = ys @ ?r # zs \<and> key ?r < key x \<and> (\<forall>y\<in>set ys. key ?r < key y))"
      by blast+
    from pos have "\<exists>ys zs. x # xs = ys @ ?r # zs \<and> key ?r < key best \<and> (\<forall>y\<in>set ys. key ?r < key y)"
    proof
      assume "?r = x"
      then have "x # xs = [] @ ?r # xs \<and> key ?r < key best \<and> (\<forall>y\<in>set []. key ?r < key y)"
        using True by simp
      then show ?thesis by blast
    next
      assume "\<exists>ys zs. xs = ys @ ?r # zs \<and> key ?r < key x \<and> (\<forall>y\<in>set ys. key ?r < key y)"
      then obtain ys zs where "xs = ys @ ?r # zs" "key ?r < key x" "\<forall>y\<in>set ys. key ?r < key y"
        by blast
      then have "x # xs = (x # ys) @ ?r # zs \<and> key ?r < key best \<and> (\<forall>y\<in>set (x # ys). key ?r < key y)"
        using True by simp
      then show ?thesis by blast
    qed
    with le all True show ?thesis unfolding r by auto
  next
    case False
    let ?r = "min_key_loop key best xs"
    have r: "min_key_loop key best (x # xs) = ?r" using False by simp
    from Cons.IH [of best] have le: "key ?r \<le> key best" and all: "\<forall>y\<in>set xs. key ?r \<le> key y"
      and pos: "?r = best \<or> (\<exists>ys zs. xs = ys @ ?r # zs \<and> key ?r < key best \<and> (\<forall>y\<in>set ys. key ?r < key y))"
      by blast+
    from pos have "?r = best \<or> (\<exists>ys zs. x # xs = ys @ ?r # zs \<and> key ?r < key best \<and> (\<forall>y\<in>set ys. key ?r < key y))"
    proof
      assume "?r = best"
      then show ?thesis by simp
    next
      assume "\<exists>ys zs. xs = ys @ ?r # zs \<and> key ?r < key best \<and> (\<forall>y\<in>set ys. key ?r < key y)"
      then obtain ys zs where "xs = ys @ ?r # zs" "key ?r < key best" "\<forall>y\<in>set ys. key ?r < key y"
        by blast
      then have "x # xs = (x # ys) @ ?r # zs \<and> key ?r < key best \<and> (\<forall>y\<in>set (x # ys). key ?r < key y)"
        using False by simp
      then show ?thesis by blast
    qed
    with le all False show ?thesis unfolding r by auto
  qed
qed

text \<open>
  C10. For a non-empty list \<^verbatim>\<open>validate_input\<close> returns an element of the list whose
  distance to the target is minimal, and every element before its position is strictly
  farther from the target: it is the earliest of the closest elements.
\<close>

theorem validate_input_first_minimum:
  assumes "vals_valid \<noteq> []"
  shows "\<exists>r i. validate_input target vals_valid = Inr r \<and> i < length vals_valid \<and>
           vals_valid ! i = r \<and>
           (\<forall>v\<in>set vals_valid. \<bar>r - target\<bar> \<le> \<bar>v - target\<bar>) \<and>
           (\<forall>j<i. \<bar>r - target\<bar> < \<bar>vals_valid ! j - target\<bar>)"
proof -
  from assms obtain b rest where v: "vals_valid = b # rest" by (cases vals_valid) auto
  define key where "key = (\<lambda>x. \<bar>x - target\<bar>)"
  define r where "r = min_key_loop key b rest"
  have res: "validate_input target vals_valid = Inr r"
    by (simp add: validate_input_def min_py_def v r_def key_def)
  from min_key_loop_spec [of key b rest]
  have le: "key r \<le> key b" and all: "\<forall>x\<in>set rest. key r \<le> key x"
    and pos: "r = b \<or> (\<exists>ys zs. rest = ys @ r # zs \<and> key r < key b \<and> (\<forall>y\<in>set ys. key r < key y))"
    unfolding r_def by blast+
  have min: "\<forall>x\<in>set vals_valid. key r \<le> key x" using le all v by simp
  from pos have "\<exists>i<length vals_valid. vals_valid ! i = r \<and> (\<forall>j<i. key r < key (vals_valid ! j))"
  proof
    assume "r = b"
    then have "0 < length vals_valid \<and> vals_valid ! 0 = r \<and> (\<forall>j<0. key r < key (vals_valid ! j))"
      using v by simp
    then show ?thesis by blast
  next
    assume "\<exists>ys zs. rest = ys @ r # zs \<and> key r < key b \<and> (\<forall>y\<in>set ys. key r < key y)"
    then obtain ys zs where rest: "rest = ys @ r # zs" and kb: "key r < key b"
      and kys: "\<forall>y\<in>set ys. key r < key y" by blast
    have vv: "vals_valid = (b # ys) @ r # zs" using v rest by simp
    have "\<forall>j<Suc (length ys). key r < key (vals_valid ! j)"
    proof (intro allI impI)
      fix j assume "j < Suc (length ys)"
      then have "vals_valid ! j = (b # ys) ! j" unfolding vv
        by (cases j) (simp_all add: nth_append)
      moreover have "(b # ys) ! j \<in> set (b # ys)" using \<open>j < Suc (length ys)\<close> by (intro nth_mem) simp
      ultimately show "key r < key (vals_valid ! j)" using kb kys by auto
    qed
    moreover have "vals_valid ! Suc (length ys) = r" unfolding vv by simp
    moreover have "Suc (length ys) < length vals_valid" unfolding vv by simp
    ultimately show ?thesis by blast
  qed
  with res min show ?thesis unfolding key_def by blast
qed

theorem validate_input_first_minimum_witness:
  "[1, 2, 5, 10, 20] \<noteq> ([] :: real list) \<and>
   (\<exists>r i. validate_input 10.1 [1, 2, 5, 10, 20] = Inr r \<and> i < length [1, 2, 5, 10, 20 :: real] \<and>
           [1, 2, 5, 10, 20] ! i = r \<and>
           (\<forall>v\<in>set [1, 2, 5, 10, 20]. \<bar>r - 10.1\<bar> \<le> \<bar>v - 10.1\<bar>) \<and>
           (\<forall>j<i. \<bar>r - 10.1\<bar> < \<bar>[1, 2, 5, 10, 20] ! j - 10.1\<bar>)) \<and>
   validate_input 10.1 [1, 2, 5, 10, 20] = Inr 10"
proof -
  have ne: "[1, 2, 5, 10, 20] \<noteq> ([] :: real list)" by simp
  have ev: "validate_input 10.1 [1, 2, 5, 10, 20] = Inr 10"
    by (simp add: validate_input_def min_py_def)
  from ne validate_input_first_minimum [OF ne, of "10.1"] ev show ?thesis by blast
qed

section \<open>Waveform decoding\<close>

lemma capture_loop_eq:
  "capture_loop idx raw st sv off tm vw =
     (tm @ map (\<lambda>k. st * real k) [idx..<idx + length raw],
      vw @ map (\<lambda>v. (real_of_int (sint v) / 6400 - off) * sv) raw)"
proof (induction raw arbitrary: idx tm vw)
  case Nil
  show ?case by simp
next
  case (Cons v rest)
  have "[idx..<idx + length (v # rest)] = idx # [idx + 1..<(idx + 1) + length rest]"
    by (simp add: upt_rec)
  with Cons show ?case by simp
qed

lemma decode_eq:
  "decode raw sc off p =
     (map (\<lambda>k. p * real k) [0..<length raw],
      map (\<lambda>v. (real_of_int (sint v) / 6400 - off) * sc) raw)"
  by (simp add: decode_def capture_loop_eq)

text \<open>
  C7. The decoder keeps the length and the order of the raw block; the sample with code
  \<open>c\<close> at index \<open>i\<close> becomes the voltage \<open>(c / 6400 - offset) * scale\<close> at the time
  \<open>period * i\<close>; the single code \<open>6400\<close> at scale \<open>1\<close>, offset \<open>0\<close> and period \<open>1\<close>
  decodes to time \<open>0\<close> and voltage \<open>1\<close>.
\<close>

theorem decode_samples:
  "length (fst (decode raw sc off p)) = length raw \<and>
   length (snd (decode raw sc off p)) = length raw \<and>
   (\<forall>i<length raw.
      fst (decode raw sc off p) ! i = p * real i \<and>
      snd (decode raw sc off p) ! i = (real_of_int (sint (raw ! i)) / 6400 - off) * sc) \<and>
   decode [6400] 1 0 1 = ([0], [1])"
  by (simp add: decode_eq)

theorem decode_samples_witness:
  "(2::nat) < length [6400, 0, - 6400 :: 16 word] \<and>
   fst (decode [6400, 0, - 6400] 2 1 3) ! 2 = 6 \<and>
   snd (decode [6400, 0, - 6400] 2 1 3) ! 2 = - 4"
  using decode_samples [of "[6400, 0, - 6400]" 2 1 3] by simp

section \<open>The timebase token\<close>







end
